theory Spec2Isabelle
  imports Complex_Main
begin

section \<open>Go values as the reflect package sees them\<close>

text \<open>
  \<^verbatim>\<open>match.go\<close> walks its two arguments through package \<^verbatim>\<open>reflect\<close>. A
  \<^verbatim>\<open>reflect.Value\<close> is a type descriptor together with the data it describes, or the
  zero Value, which describes nothing. The model keeps that shape: \<open>gtype\<close> is the type
  descriptor, \<open>data\<close> the payload, \<open>rvalue\<close> the pair or \<open>Invalid\<close>.

  The scalar kinds are represented by \<^verbatim>\<open>bool\<close>, \<^verbatim>\<open>int\<close>, \<^verbatim>\<open>int64\<close>,
  \<^verbatim>\<open>float64\<close> and \<^verbatim>\<open>string\<close>; the remaining integer, float and complex kinds,
  channels and unsafe pointers reach the same line of the source (the \<^verbatim>\<open>default\<close>
  case) and are left out. Values are finite trees: a pointer carries its address and the
  value it points to, so cyclic object graphs are outside the model.
\<close>

datatype float64 = Finite rat | PosInf | NegInf | NaN

datatype gtype =
    TBool
  | TInt
  | TInt64
  | TFloat64
  | TString
  | TFunc string
  | TInterface
  | TPtr gtype
  | TArray nat gtype
  | TSlice gtype
  | TMap gtype gtype
  | TStruct "(string \<times> string \<times> gtype) list"
  | TNamed string gtype

text \<open>
  A struct type lists its fields in declaration order as (Name, PkgPath, Type); PkgPath is
  empty exactly for exported fields, as in \<^verbatim>\<open>reflect.StructField\<close>. \<open>TFunc\<close> carries
  the signature, \<open>TNamed\<close> a defined type with its name and underlying type, and
  \<open>TInterface\<close> is \<^verbatim>\<open>interface{}\<close>.
\<close>

datatype data =
    DBool bool
  | DInt int
  | DFloat float64
  | DString string
  | DFunc "nat option"
  | DIface "(gtype \<times> data) option"
  | DPtr "(nat \<times> data) option"
  | DSeq "data list"
  | DStruct "data list"
  | DMap "(data \<times> data) list"

text \<open>
  \<open>DIface\<close> is the content of an interface-typed slot: nil, or the dynamic type and
  value. \<open>DPtr\<close> is nil or an address with the pointee. \<open>DSeq\<close> holds the elements of
  an array or slice, \<open>DStruct\<close> the field values in declaration order. \<open>DMap\<close> lists
  the entries of a map in the order in which \<^verbatim>\<open>MapKeys\<close> enumerates them in the run
  at hand; Go leaves that order unspecified, and every theorem below holds for all orders.
\<close>

type_synonym iface = "(gtype \<times> data) option"

datatype rvalue = Invalid | Val gtype data

datatype kind =
    KInvalid | KBool | KInt | KInt64 | KFloat64 | KString | KFunc | KInterface
  | KPtr | KArray | KSlice | KStruct | KMap

datatype panic =
    ZeroValueType
  | Uncomparable gtype

text \<open>
  The two run-time panics the source can raise:
  \<open>ZeroValueType\<close> is \<^verbatim>\<open>reflect: call of reflect.Value.Type on zero Value\<close>;
  \<open>Uncomparable t\<close> is \<^verbatim>\<open>runtime error: comparing uncomparable type t\<close>, raised
  by \<^verbatim>\<open>==\<close> on two interface values of the same dynamic type \<open>t\<close> when \<open>t\<close> is
  not comparable.
\<close>

subsection \<open>Type descriptors\<close>

fun kindOf :: "gtype \<Rightarrow> kind" where
  "kindOf TBool = KBool"
| "kindOf TInt = KInt"
| "kindOf TInt64 = KInt64"
| "kindOf TFloat64 = KFloat64"
| "kindOf TString = KString"
| "kindOf (TFunc s) = KFunc"
| "kindOf TInterface = KInterface"
| "kindOf (TPtr t) = KPtr"
| "kindOf (TArray n t) = KArray"
| "kindOf (TSlice t) = KSlice"
| "kindOf (TMap k t) = KMap"
| "kindOf (TStruct fs) = KStruct"
| "kindOf (TNamed n t) = kindOf t"

fun elemType :: "gtype \<Rightarrow> gtype" where
  "elemType (TPtr t) = t"
| "elemType (TArray n t) = t"
| "elemType (TSlice t) = t"
| "elemType (TMap k t) = t"
| "elemType (TNamed n t) = elemType t"
| "elemType t = t"

fun keyType :: "gtype \<Rightarrow> gtype" where
  "keyType (TMap k t) = k"
| "keyType (TNamed n t) = keyType t"
| "keyType t = t"

fun fieldsOf :: "gtype \<Rightarrow> (string \<times> string \<times> gtype) list" where
  "fieldsOf (TStruct fs) = fs"
| "fieldsOf (TNamed n t) = fieldsOf t"
| "fieldsOf t = []"

definition PkgPath :: "string \<times> string \<times> gtype \<Rightarrow> string" where
  "PkgPath f = fst (snd f)"

definition fieldType :: "string \<times> string \<times> gtype \<Rightarrow> gtype" where
  "fieldType f = snd (snd f)"

fun comparable :: "gtype \<Rightarrow> bool" where
  "comparable (TFunc s) = False"
| "comparable (TSlice t) = False"
| "comparable (TMap k t) = False"
| "comparable (TArray n t) = comparable t"
| "comparable (TStruct fs) = list_all (\<lambda>f. comparable (snd (snd f))) fs"
| "comparable (TNamed n t) = comparable t"
| "comparable t = True"


subsection \<open>The operator \<^verbatim>\<open>==\<close> on interface values\<close>

text \<open>
  Line 99 of the source compares two \<^verbatim>\<open>interface{}\<close> values with \<^verbatim>\<open>==\<close>. By the Go
  specification two interface values are equal if both are nil, or if they have identical
  dynamic types and equal dynamic values; when the dynamic types are identical and not
  comparable the comparison panics. Floats compare as IEEE 754 says (a NaN equals
  nothing), pointers by address, arrays and structs element by element in order, stopping
  at the first difference. \<open>go_eq\<close> is that operator on two payloads of one comparable
  type; payloads of different shape cannot meet in a Go program and are given \<open>False\<close>.
\<close>

definition float_eq :: "float64 \<Rightarrow> float64 \<Rightarrow> bool" where
  "float_eq x y = (x \<noteq> NaN \<and> y \<noteq> NaN \<and> x = y)"

fun go_eq :: "data \<Rightarrow> data \<Rightarrow> panic + bool"
  and go_eq_list :: "data list \<Rightarrow> data list \<Rightarrow> panic + bool" where
  "go_eq (DBool x) v = (case v of DBool y \<Rightarrow> Inr (x = y) | _ \<Rightarrow> Inr False)"
| "go_eq (DInt x) v = (case v of DInt y \<Rightarrow> Inr (x = y) | _ \<Rightarrow> Inr False)"
| "go_eq (DFloat x) v = (case v of DFloat y \<Rightarrow> Inr (float_eq x y) | _ \<Rightarrow> Inr False)"
| "go_eq (DString x) v = (case v of DString y \<Rightarrow> Inr (x = y) | _ \<Rightarrow> Inr False)"
| "go_eq (DPtr p) v =
     (case v of DPtr q \<Rightarrow> Inr (map_option fst p = map_option fst q) | _ \<Rightarrow> Inr False)"
| "go_eq (DIface None) v = (case v of DIface y \<Rightarrow> Inr (y = None) | _ \<Rightarrow> Inr False)"
| "go_eq (DIface (Some (t, d))) v =
     (case v of
        DIface (Some (t', d')) \<Rightarrow>
          if t \<noteq> t' then Inr False
          else if \<not> comparable t then Inl (Uncomparable t)
          else go_eq d d'
      | _ \<Rightarrow> Inr False)"
| "go_eq (DSeq xs) v = (case v of DSeq ys \<Rightarrow> go_eq_list xs ys | _ \<Rightarrow> Inr False)"
| "go_eq (DStruct xs) v = (case v of DStruct ys \<Rightarrow> go_eq_list xs ys | _ \<Rightarrow> Inr False)"
| "go_eq (DFunc f) v = Inr False"
| "go_eq (DMap es) v = Inr False"
| "go_eq_list [] ys = Inr (ys = [])"
| "go_eq_list (x # xs) ys =
     (case ys of
        [] \<Rightarrow> Inr False
      | y # ys' \<Rightarrow>
          (case go_eq x y of
             Inl p \<Rightarrow> Inl p
           | Inr b \<Rightarrow> if b then go_eq_list xs ys' else Inr False))"

definition iface_eq :: "iface \<Rightarrow> iface \<Rightarrow> panic + bool" where
  "iface_eq x y = go_eq (DIface x) (DIface y)"

definition key_eq :: "data \<Rightarrow> data \<Rightarrow> bool" where
  "key_eq k k' = (go_eq k k' = Inr True)"

subsection \<open>The methods of \<^verbatim>\<open>reflect.Value\<close> that the source calls\<close>

text \<open>
  \<^verbatim>\<open>Type\<close> panics on the zero Value (the package documents that every method of the
  zero Value but \<^verbatim>\<open>IsValid\<close>, \<^verbatim>\<open>Kind\<close> and \<^verbatim>\<open>String\<close> panics). The source calls
  every other method behind the \<^verbatim>\<open>Type\<close> test of line 50 and on the kind its
  \<^verbatim>\<open>switch\<close> selected, so their results on other arguments are never used; the model
  gives \<open>Invalid\<close>, \<open>0\<close>, \<open>False\<close> or nil there. \<^verbatim>\<open>MapIndex\<close> returns the zero Value
  for a key the map does not hold.
\<close>

fun ValueOf :: "iface \<Rightarrow> rvalue" where
  "ValueOf None = Invalid"
| "ValueOf (Some (t, d)) = Val t d"

fun Type :: "rvalue \<Rightarrow> panic + gtype" where
  "Type Invalid = Inl ZeroValueType"
| "Type (Val t d) = Inr t"

fun Kind :: "rvalue \<Rightarrow> kind" where
  "Kind Invalid = KInvalid"
| "Kind (Val t d) = kindOf t"

fun IsNil :: "rvalue \<Rightarrow> bool" where
  "IsNil (Val t (DPtr p)) = (p = None)"
| "IsNil (Val t (DIface x)) = (x = None)"
| "IsNil (Val t (DFunc f)) = (f = None)"
| "IsNil v = False"

fun Elem :: "rvalue \<Rightarrow> rvalue" where
  "Elem (Val t (DPtr (Some (a, d)))) = Val (elemType t) d"
| "Elem (Val t (DIface (Some (t', d)))) = Val t' d"
| "Elem v = Invalid"

fun Len :: "rvalue \<Rightarrow> nat" where
  "Len (Val t (DSeq xs)) = length xs"
| "Len v = 0"

fun Index :: "rvalue \<Rightarrow> nat \<Rightarrow> rvalue" where
  "Index (Val t (DSeq xs)) i = (if i < length xs then Val (elemType t) (xs ! i) else Invalid)"
| "Index v i = Invalid"

fun NumField :: "rvalue \<Rightarrow> nat" where
  "NumField (Val t d) = length (fieldsOf t)"
| "NumField Invalid = 0"

fun TypeField :: "gtype \<Rightarrow> nat \<Rightarrow> string \<times> string \<times> gtype" where
  "TypeField t i = fieldsOf t ! i"

fun FieldOf :: "rvalue \<Rightarrow> nat \<Rightarrow> rvalue" where
  "FieldOf (Val t (DStruct ds)) i =
     (if i < length ds \<and> i < length (fieldsOf t)
      then Val (fieldType (TypeField t i)) (ds ! i) else Invalid)"
| "FieldOf v i = Invalid"

fun MapKeys :: "rvalue \<Rightarrow> rvalue list" where
  "MapKeys (Val t (DMap es)) = map (\<lambda>e. Val (keyType t) (fst e)) es"
| "MapKeys v = []"

fun MapIndex :: "rvalue \<Rightarrow> rvalue \<Rightarrow> rvalue" where
  "MapIndex (Val t (DMap es)) (Val kt k) =
     (case find (\<lambda>e. key_eq (fst e) k) es of
        None \<Rightarrow> Invalid
      | Some e \<Rightarrow> Val (elemType t) (snd e))"
| "MapIndex v key = Invalid"

fun Interface :: "rvalue \<Rightarrow> iface" where
  "Interface (Val t d) =
     (if kindOf t = KInterface then (case d of DIface x \<Rightarrow> x | _ \<Rightarrow> None)
      else Some (t, d))"
| "Interface Invalid = None"

section \<open>The structural matcher\<close>

text \<open>
  \<open>matchesValues\<close> is the function of lines 49 to 102. Its two nested loops over a
  sequence are \<open>seqLoop\<close> (the loop on \<open>i\<close>, lines 66 to 81) and \<open>seqScan\<close> (the loop
  on \<open>j\<close>, lines 68 to 77, which returns the index it marked used, or \<open>None\<close> when
  \<^verbatim>\<open>found\<close> stays false); \<open>structLoop\<close> is the loop of lines 83 to 91 and \<open>mapLoop\<close>
  the loop of lines 93 to 97. The map \<^verbatim>\<open>used\<close> of line 65 is a function from indices to
  \<open>bool\<close>, an absent index reading as \<open>False\<close>. The \<^verbatim>\<open>switch\<close> on the kind is the
  chain of tests on \<open>Kind expected\<close>, the \<^verbatim>\<open>Array\<close> case falling through to the
  \<^verbatim>\<open>Slice\<close> case. A panic in a recursive call ends the whole comparison.

  Every recursive call of \<open>matchesValues\<close> is on a part of \<open>expected\<close>, or on the zero
  Value; \<open>mvRank\<close> and \<open>loopRank\<close> measure \<open>expected\<close> for the termination proof.
\<close>

fun mvRank :: "rvalue \<Rightarrow> nat" where
  "mvRank Invalid = 0"
| "mvRank (Val t d) = 2 * size d + 2"

fun loopRank :: "rvalue \<Rightarrow> nat" where
  "loopRank Invalid = 1"
| "loopRank (Val t d) = 2 * size d + 1"

lemma loopRank_less: "Type e = Inr t \<Longrightarrow> loopRank e < mvRank e"
  by (cases e) simp_all

lemma size_nth_less: "i < length xs \<Longrightarrow> size (xs ! i) < Suc (size_list size xs)"
proof (induction xs arbitrary: i)
  case Nil
  then show ?case by simp
next
  case (Cons x xs)
  then show ?case by (cases i) fastforce+
qed

lemma size_find_less:
  "find P es = Some e \<Longrightarrow> size (snd e) < Suc (size_list (size_prod size size) es)"
proof (induction es)
  case Nil
  then show ?case by simp
next
  case (Cons x es)
  then show ?case by (cases "P x") (cases x, fastforce)+
qed

lemma mvRank_Elem: "Type e = Inr t \<Longrightarrow> mvRank (Elem e) < mvRank e"
proof (cases e)
  case Invalid
  assume "Type e = Inr t"
  with Invalid show ?thesis by simp
next
  case (Val t' d)
  show ?thesis
  proof (cases d)
    case (DPtr p)
    with Val show ?thesis by (cases p) auto
  next
    case (DIface x)
    with Val show ?thesis by (cases x) auto
  qed (simp_all add: Val)
qed

lemma mvRank_Index: "mvRank (Index e i) < loopRank e"
proof (cases e)
  case Invalid
  then show ?thesis by simp
next
  case (Val t d)
  show ?thesis
  proof (cases d)
    case (DSeq xs)
    with Val show ?thesis using size_nth_less [of i xs] by auto
  qed (simp_all add: Val)
qed

lemma mvRank_FieldOf: "mvRank (FieldOf e i) < loopRank e"
proof (cases e)
  case Invalid
  then show ?thesis by simp
next
  case (Val t d)
  show ?thesis
  proof (cases d)
    case (DStruct xs)
    with Val show ?thesis using size_nth_less [of i xs] by auto
  qed (simp_all add: Val)
qed

lemma mvRank_MapIndex: "mvRank (MapIndex e k) < loopRank e"
proof (cases e)
  case Invalid
  then show ?thesis by simp
next
  case (Val t d)
  note e = Val
  show ?thesis
  proof (cases k)
    case Invalid
    with e show ?thesis by (cases d) simp_all
  next
    case (Val kt kd)
    show ?thesis
    proof (cases d)
      case (DMap es)
      show ?thesis
      proof (cases "find (\<lambda>en. key_eq (fst en) kd) es")
        case None
        with e Val DMap show ?thesis by simp
      next
        case (Some en)
        with e Val DMap show ?thesis using size_find_less [OF Some] by simp
      qed
    qed (simp_all add: e Val)
  qed
qed

function matchesValues :: "rvalue \<Rightarrow> rvalue \<Rightarrow> panic + bool"
  and seqLoop :: "rvalue \<Rightarrow> rvalue \<Rightarrow> (nat \<Rightarrow> bool) \<Rightarrow> nat \<Rightarrow> panic + bool"
  and seqScan :: "rvalue \<Rightarrow> rvalue \<Rightarrow> (nat \<Rightarrow> bool) \<Rightarrow> nat \<Rightarrow> nat \<Rightarrow> panic + nat option"
  and structLoop :: "rvalue \<Rightarrow> rvalue \<Rightarrow> nat \<Rightarrow> panic + bool"
  and mapLoop :: "rvalue \<Rightarrow> rvalue \<Rightarrow> rvalue list \<Rightarrow> panic + bool" where
  "matchesValues expected actual =
     (case Type expected of
        Inl p \<Rightarrow> Inl p
      | Inr te \<Rightarrow>
     (case Type actual of
        Inl p \<Rightarrow> Inl p
      | Inr ta \<Rightarrow>
     if te \<noteq> ta then Inr False
     else if Kind expected = KPtr then
       (if IsNil expected \<or> IsNil actual then Inr (IsNil expected \<and> IsNil actual)
        else matchesValues (Elem expected) (Elem actual))
     else if Kind expected = KArray \<or> Kind expected = KSlice then
       (if Len expected \<noteq> Len actual then Inr False
        else seqLoop expected actual (\<lambda>j. False) 0)
     else if Kind expected = KStruct then structLoop expected actual 0
     else if Kind expected = KMap then mapLoop expected actual (MapKeys expected)
     else iface_eq (Interface expected) (Interface actual)))"
| "seqLoop expected actual used i =
     (if i < Len expected then
        (case seqScan expected actual used i 0 of
           Inl p \<Rightarrow> Inl p
         | Inr None \<Rightarrow> Inr False
         | Inr (Some j) \<Rightarrow> seqLoop expected actual (used(j := True)) (i + 1))
      else Inr True)"
| "seqScan expected actual used i j =
     (if j < Len actual then
        (if used j then seqScan expected actual used i (j + 1)
         else
           (case matchesValues (Index expected i) (Index actual j) of
              Inl p \<Rightarrow> Inl p
            | Inr m \<Rightarrow> if m then Inr (Some j) else seqScan expected actual used i (j + 1)))
      else Inr None)"
| "structLoop expected actual i =
     (if i < NumField expected then
        (case Type expected of
           Inl p \<Rightarrow> Inl p
         | Inr te \<Rightarrow>
        if PkgPath (TypeField te i) \<noteq> [] then structLoop expected actual (i + 1)
        else
          (case matchesValues (FieldOf expected i) (FieldOf actual i) of
             Inl p \<Rightarrow> Inl p
           | Inr m \<Rightarrow> if m then structLoop expected actual (i + 1) else Inr False))
      else Inr True)"
| "mapLoop expected actual [] = Inr True"
| "mapLoop expected actual (key # keys) =
     (case matchesValues (MapIndex expected key) (MapIndex actual key) of
        Inl p \<Rightarrow> Inl p
      | Inr m \<Rightarrow> if m then mapLoop expected actual keys else Inr False)"
  by pat_completeness auto


termination
  apply (relation "inv_image (less_than <*lex*> less_than <*lex*> less_than)
      (\<lambda>x. case x of
          Inl (Inl (e, a)) \<Rightarrow> (mvRank e, 0, 0)
        | Inl (Inr (e, a, u, i)) \<Rightarrow> (loopRank e, 1, Len e - i)
        | Inr (Inl (e, a, u, i, j)) \<Rightarrow> (loopRank e, 0, Len a - j)
        | Inr (Inr (Inl (e, a, i))) \<Rightarrow> (loopRank e, 0, NumField e - i)
        | Inr (Inr (Inr (e, a, ks))) \<Rightarrow> (loopRank e, 0, length ks))")
                 apply (simp add: wf_lex_prod)
                apply (simp_all add: mvRank_Elem loopRank_less mvRank_Index mvRank_FieldOf mvRank_MapIndex)
  done


declare matchesValues.simps [simp del] seqLoop.simps [simp del] seqScan.simps [simp del]
  structLoop.simps [simp del] mapLoop.simps [simp del]

text \<open>\<open>Matches\<close> is the function of lines 44 to 46.\<close>

definition Matches :: "iface \<Rightarrow> iface \<Rightarrow> panic + bool" where
  "Matches expected actual = matchesValues (ValueOf expected) (ValueOf actual)"

section \<open>The response matcher\<close>

text \<open>
  A response body is a stream that can be read once. \<open>pending\<close> are the bytes it still
  holds, \<open>failure\<close> the error its reader reports after delivering them (nil when it
  ends with a clean end of file), and \<open>reads\<close> counts the calls of
  \<^verbatim>\<open>ioutil.ReadAll\<close> on it. \<^verbatim>\<open>ReadAll\<close> returns the bytes and the error and leaves
  the stream empty. An \<^verbatim>\<open>error\<close> is an interface value, so it is an \<open>iface\<close>.
\<close>

record stream =
  pending :: string
  failure :: iface
  reads :: nat

definition ReadAll :: "stream \<Rightarrow> (string \<times> iface) \<times> stream" where
  "ReadAll s = ((pending s, failure s), s\<lparr>pending := [], reads := reads s + 1\<rparr>)"

text \<open>
  The fields of \<^verbatim>\<open>http.Response\<close> that the source reads. A header is a
  \<^verbatim>\<open>map[string][]string\<close> of the defined type \<^verbatim>\<open>http.Header\<close>, listed in the
  order in which its keys are enumerated. The two responses are distinct objects, neither
  is nil, and each has a body of its own.
\<close>

record response =
  StatusCode :: int
  Header :: "(string \<times> string list) list"
  Body :: stream
  Trailer :: "(string \<times> string list) list"

definition THeader :: gtype where
  "THeader = TNamed ''http.Header'' (TMap TString (TSlice TString))"

definition headerValue :: "(string \<times> string list) list \<Rightarrow> iface" where
  "headerValue h =
     Some (THeader, DMap (map (\<lambda>kv. (DString (fst kv), DSeq (map DString (snd kv)))) h))"

text \<open>
  \<open>MatchesHTTPResponse\<close> is the function of lines 12 to 41. Package
  \<^verbatim>\<open>encoding/json\<close> is not part of the repository: \<open>Unmarshal\<close> is a parameter,
  giving \<open>None\<close> for bytes that do not parse and otherwise the \<^verbatim>\<open>interface{}\<close> value
  stored in the target variable. The result carries the two bodies as the call leaves
  them.
\<close>

definition MatchesHTTPResponse ::
  "(string \<Rightarrow> iface option) \<Rightarrow> response \<Rightarrow> response \<Rightarrow> (panic + bool) \<times> stream \<times> stream" where
  "MatchesHTTPResponse Unmarshal expected actual =
     (if StatusCode expected \<noteq> StatusCode actual then (Inr False, Body expected, Body actual)
      else
        (case Matches (headerValue (Header expected)) (headerValue (Header actual)) of
           Inl p \<Rightarrow> (Inl p, Body expected, Body actual)
         | Inr hm \<Rightarrow>
        if \<not> hm then (Inr False, Body expected, Body actual)
        else
          (case ReadAll (Body expected) of ((expBody, expErr), eb) \<Rightarrow>
          (case ReadAll (Body actual) of ((actBody, actErr), ab) \<Rightarrow>
          if expErr \<noteq> None \<or> actErr \<noteq> None then (iface_eq expErr actErr, eb, ab)
          else
            (case Matches (headerValue (Trailer expected)) (headerValue (Trailer actual)) of
               Inl p \<Rightarrow> (Inl p, eb, ab)
             | Inr tm \<Rightarrow>
            if \<not> tm then (Inr False, eb, ab)
            else
              (case Unmarshal expBody of
                 None \<Rightarrow> (Inr (expBody = actBody), eb, ab)
               | Some expVal \<Rightarrow>
              (case Unmarshal actBody of
                 None \<Rightarrow> (Inr False, eb, ab)
               | Some actVal \<Rightarrow> (Matches expVal actVal, eb, ab))))))))"


section \<open>The sequence rule in the specification's words\<close>

text \<open>
  The specification describes the comparison of two sequences as follows: for each
  element of \<^verbatim>\<open>expected\<close>, in order, search the elements of \<^verbatim>\<open>actual\<close> not yet
  consumed by an earlier match, in their original order, for the first one that matches;
  on success mark that index consumed and go on; on failure the comparison is false.
  \<open>unordered_match\<close> is that description, over any element comparison \<open>m\<close> and with
  the consumed indices as a set. \<open>elemMatch\<close> is the recursive call of \<open>matchesValues\<close>
  on two elements of sequences of type \<open>t\<close>.
\<close>

fun first_match ::
  "('a \<Rightarrow> 'b \<Rightarrow> panic + bool) \<Rightarrow> 'a \<Rightarrow> 'b list \<Rightarrow> nat list \<Rightarrow> panic + nat option" where
  "first_match m x ys [] = Inr None"
| "first_match m x ys (j # js) =
     (case m x (ys ! j) of
        Inl p \<Rightarrow> Inl p
      | Inr b \<Rightarrow> if b then Inr (Some j) else first_match m x ys js)"

definition unconsumed :: "nat set \<Rightarrow> 'b list \<Rightarrow> nat list" where
  "unconsumed consumed ys = filter (\<lambda>j. j \<notin> consumed) [0..<length ys]"

fun unordered_match ::
  "('a \<Rightarrow> 'b \<Rightarrow> panic + bool) \<Rightarrow> 'a list \<Rightarrow> 'b list \<Rightarrow> nat set \<Rightarrow> panic + bool" where
  "unordered_match m [] ys consumed = Inr True"
| "unordered_match m (x # xs) ys consumed =
     (case first_match m x ys (unconsumed consumed ys) of
        Inl p \<Rightarrow> Inl p
      | Inr None \<Rightarrow> Inr False
      | Inr (Some j) \<Rightarrow> unordered_match m xs ys (insert j consumed))"

definition elemMatch :: "gtype \<Rightarrow> data \<Rightarrow> data \<Rightarrow> panic + bool" where
  "elemMatch t x y = matchesValues (Val (elemType t) x) (Val (elemType t) y)"

section \<open>Well-typed values, values that equal themselves, copies\<close>

text \<open>
  \<open>wellTyped t d\<close>: the payload \<open>d\<close> is a value of the type \<open>t\<close>, as every value a
  Go program builds is. An interface-typed slot holds nil or a value of a type that is
  not an interface type; the key type of a map is comparable.

  \<open>clean d\<close>: \<open>d\<close> contains no NaN and no func value, and every interface-typed slot
  in it holds nil or a value of comparable dynamic type. These are the values on which
  the operator \<^verbatim>\<open>==\<close> of line 99 returns true when a value is compared with itself.

  \<open>copyOf d w\<close>: \<open>w\<close> is a structural copy of \<open>d\<close>. The pointers that the matcher
  follows (outside interface-typed slots and map keys) may have other addresses in the
  copy; scalars, map keys and the contents of interface-typed slots are the same.
\<close>

fun arrayLen :: "gtype \<Rightarrow> nat" where
  "arrayLen (TArray n t) = n"
| "arrayLen (TNamed n t) = arrayLen t"
| "arrayLen t = 0"

fun wellTyped :: "gtype \<Rightarrow> data \<Rightarrow> bool" where
  "wellTyped t (DBool b) = (kindOf t = KBool)"
| "wellTyped t (DInt n) = (kindOf t = KInt \<or> kindOf t = KInt64)"
| "wellTyped t (DFloat f) = (kindOf t = KFloat64)"
| "wellTyped t (DString s) = (kindOf t = KString)"
| "wellTyped t (DFunc f) = (kindOf t = KFunc)"
| "wellTyped t (DIface None) = (kindOf t = KInterface)"
| "wellTyped t (DIface (Some (t', d))) =
     (kindOf t = KInterface \<and> kindOf t' \<noteq> KInterface \<and> wellTyped t' d)"
| "wellTyped t (DPtr None) = (kindOf t = KPtr)"
| "wellTyped t (DPtr (Some (a, d))) = (kindOf t = KPtr \<and> wellTyped (elemType t) d)"
| "wellTyped t (DSeq xs) =
     ((kindOf t = KSlice \<or> kindOf t = KArray \<and> arrayLen t = length xs)
      \<and> list_all (wellTyped (elemType t)) xs)"
| "wellTyped t (DStruct ds) =
     (kindOf t = KStruct \<and> list_all2 (\<lambda>f d. wellTyped (fieldType f) d) (fieldsOf t) ds)"
| "wellTyped t (DMap es) =
     (kindOf t = KMap \<and> comparable (keyType t)
      \<and> list_all (\<lambda>e. wellTyped (keyType t) (fst e) \<and> wellTyped (elemType t) (snd e)) es)"

fun clean :: "data \<Rightarrow> bool" where
  "clean (DFloat f) = (f \<noteq> NaN)"
| "clean (DFunc f) = False"
| "clean (DIface None) = True"
| "clean (DIface (Some (t, d))) = (comparable t \<and> clean d)"
| "clean (DPtr None) = True"
| "clean (DPtr (Some (a, d))) = clean d"
| "clean (DSeq xs) = list_all clean xs"
| "clean (DStruct ds) = list_all clean ds"
| "clean (DMap es) = list_all (\<lambda>e. clean (fst e) \<and> clean (snd e)) es"
| "clean d = True"

fun copyOf :: "data \<Rightarrow> data \<Rightarrow> bool" where
  "copyOf (DPtr None) w = (w = DPtr None)"
| "copyOf (DPtr (Some (a, d))) w = (case w of DPtr (Some (b, d')) \<Rightarrow> copyOf d d' | _ \<Rightarrow> False)"
| "copyOf (DSeq xs) w = (case w of DSeq ys \<Rightarrow> list_all2 copyOf xs ys | _ \<Rightarrow> False)"
| "copyOf (DStruct xs) w = (case w of DStruct ys \<Rightarrow> list_all2 copyOf xs ys | _ \<Rightarrow> False)"
| "copyOf (DMap es) w =
     (case w of
        DMap es' \<Rightarrow> list_all2 (\<lambda>e e'. fst e = fst e' \<and> copyOf (snd e) (snd e')) es es'
      | _ \<Rightarrow> False)"
| "copyOf d w = (d = w)"


section \<open>Structs that differ only in unexported fields\<close>









section \<open>Go values used in the examples\<close>

text \<open>
  \<open>intSlice\<close> is a \<^verbatim>\<open>[]int\<close>, \<open>stringIntMap\<close> a \<^verbatim>\<open>map[string]int\<close>. The
  \<open>json\<close> values are what \<^verbatim>\<open>encoding/json\<close> stores into an \<^verbatim>\<open>interface{}\<close>:
  a \<^verbatim>\<open>float64\<close> for a number, a \<^verbatim>\<open>[]interface{}\<close> for an array and a
  \<^verbatim>\<open>map[string]interface{}\<close> for an object.
\<close>

definition intSlice :: "int list \<Rightarrow> iface" where
  "intSlice xs = Some (TSlice TInt, DSeq (map DInt xs))"

definition stringIntMap :: "(string \<times> int) list \<Rightarrow> iface" where
  "stringIntMap es =
     Some (TMap TString TInt, DMap (map (\<lambda>kv. (DString (fst kv), DInt (snd kv))) es))"

definition jsonNumber :: "rat \<Rightarrow> iface" where
  "jsonNumber x = Some (TFloat64, DFloat (Finite x))"

definition jsonArray :: "iface list \<Rightarrow> iface" where
  "jsonArray xs = Some (TSlice TInterface, DSeq (map DIface xs))"

definition jsonObject :: "(string \<times> iface) list \<Rightarrow> iface" where
  "jsonObject es =
     Some (TMap TString TInterface, DMap (map (\<lambda>kv. (DString (fst kv), DIface (snd kv))) es))"

text \<open>
  \<open>newStream\<close> is a body that has not been read, \<open>plainResponse\<close> a response without
  headers and trailers, \<open>errorNew\<close> the error that \<^verbatim>\<open>errors.New\<close> allocates at an
  address (a pointer to an \<^verbatim>\<open>errors.errorString\<close>). \<open>jsonExamples\<close> gives the
  decoding by \<^verbatim>\<open>encoding/json\<close> of the two JSON bodies of the specification's example
  and reports every other body as not parsing; it stands for \<open>Unmarshal\<close> in closed
  examples.
\<close>

definition newStream :: "string \<Rightarrow> iface \<Rightarrow> stream" where
  "newStream bytes err = \<lparr>pending = bytes, failure = err, reads = 0\<rparr>"

definition plainResponse :: "int \<Rightarrow> stream \<Rightarrow> response" where
  "plainResponse code body = \<lparr>StatusCode = code, Header = [], Body = body, Trailer = []\<rparr>"

definition errorNew :: "nat \<Rightarrow> string \<Rightarrow> iface" where
  "errorNew addr msg =
     Some (TPtr (TNamed ''errors.errorString'' (TStruct [(''s'', ''errors'', TString)])),
           DPtr (Some (addr, DStruct [DString msg])))"

definition jsonExamples :: "string \<Rightarrow> iface option" where
  \<open>jsonExamples body =
     (if body = ''{"a":[1,2]}'' then
        Some (jsonObject [(''a'', jsonArray [jsonNumber 1, jsonNumber 2])])
      else if body = ''{"a":[2,1]}'' then
        Some (jsonObject [(''a'', jsonArray [jsonNumber 2, jsonNumber 1])])
      else None)\<close>

text \<open>
  \<open>pointT\<close> is a struct type with two exported fields around an unexported one,
  \<open>opaqueT\<close> a struct type with no exported field.
\<close>

definition pointT :: gtype where
  "pointT = TNamed ''geom.Point''
     (TStruct [(''X'', [], TInt), (''cache'', ''geom'', TString), (''Y'', [], TInt)])"





section \<open>Sequences\<close>

lemma seqScan_first_match:
  assumes i: "i < length xs"
  shows "seqScan (Val t (DSeq xs)) (Val t (DSeq ys)) used i j =
     first_match (elemMatch t) (xs ! i) ys (filter (\<lambda>j. \<not> used j) [j..<length ys])"
proof (induction "length ys - j" arbitrary: j)
  case 0
  then show ?case by (subst seqScan.simps) simp
next
  case (Suc n)
  then have j: "j < length ys" and n: "n = length ys - Suc j" by auto
  have up: "[j..<length ys] = j # [Suc j..<length ys]"
    using j by (simp add: upt_conv_Cons)
  show ?case
    using Suc.hyps(1) [OF n] j i
    by (subst seqScan.simps) (simp add: up elemMatch_def split: sum.splits)
qed

lemma seqLoop_unordered_match:
  assumes "i \<le> length xs"
  shows "seqLoop (Val t (DSeq xs)) (Val t (DSeq ys)) used i =
     unordered_match (elemMatch t) (drop i xs) ys {j. used j}"
  using assms
proof (induction "length xs - i" arbitrary: i used)
  case 0
  then show ?case by (subst seqLoop.simps) simp
next
  case (Suc n)
  then have i: "i < length xs" and n: "n = length xs - (i + 1)" by auto
  have dr: "drop i xs = xs ! i # drop (i + 1) xs"
    using i by (simp add: Cons_nth_drop_Suc)
  have un: "unconsumed {j. used j} ys = filter (\<lambda>j. \<not> used j) [0..<length ys]"
    by (simp add: unconsumed_def)
  have ins: "\<And>k. Collect (used(k := True)) = insert k (Collect used)"
    by auto
  show ?case
    using i Suc.hyps(1) [OF n]
    by (subst seqLoop.simps)
       (simp add: dr un ins seqScan_first_match [OF i] split: sum.splits option.splits)
qed

lemma sequence_rule:
  assumes "kindOf t = KArray \<or> kindOf t = KSlice"
  shows "Matches (Some (t, DSeq xs)) (Some (t, DSeq ys)) =
     (if length xs \<noteq> length ys then Inr False
      else unordered_match (elemMatch t) xs ys {})"
  using assms seqLoop_unordered_match [of 0 xs t ys "\<lambda>j. False"]
  unfolding Matches_def by (subst matchesValues.simps) auto

lemma sequence_examples:
  "Matches (intSlice [1, 2, 3]) (intSlice [3, 1, 2]) = Inr True"
  "Matches (intSlice [1, 2, 2]) (intSlice [2, 1, 2]) = Inr True"
  "Matches (intSlice [1, 2, 2]) (intSlice [1, 2, 3]) = Inr False"
  "Matches (intSlice [1, 2]) (intSlice [1, 2, 3]) = Inr False"
  by code_simp+

text \<open>
  Claim C1. For two sequences (arrays or slices) of the same type, \<open>Matches\<close> is false
  when the lengths differ; otherwise it is the unordered matching of the specification:
  each element of \<^verbatim>\<open>expected\<close>, in order, takes the first not yet consumed element of
  \<^verbatim>\<open>actual\<close>, in the original order, that recursively matches, and the comparison is
  false as soon as an element finds none. A panic of a recursive call is the result of
  the whole comparison on both sides of the equation. The four examples of the
  specification follow.
\<close>

theorem Matches_sequences_unordered:
  "(kindOf t = KArray \<or> kindOf t = KSlice \<longrightarrow>
      Matches (Some (t, DSeq xs)) (Some (t, DSeq ys)) =
        (if length xs \<noteq> length ys then Inr False
         else unordered_match (elemMatch t) xs ys {}))
   \<and> Matches (intSlice [1, 2, 3]) (intSlice [3, 1, 2]) = Inr True
   \<and> Matches (intSlice [1, 2, 2]) (intSlice [2, 1, 2]) = Inr True
   \<and> Matches (intSlice [1, 2, 2]) (intSlice [1, 2, 3]) = Inr False
   \<and> Matches (intSlice [1, 2]) (intSlice [1, 2, 3]) = Inr False"
  using sequence_rule [of t xs ys] sequence_examples by blast

theorem Matches_sequences_unordered_witness:
  "kindOf (TArray 2 TInt) = KArray
   \<and> Matches (Some (TArray 2 TInt, DSeq [DInt 7, DInt 5])) (Some (TArray 2 TInt, DSeq [DInt 5, DInt 7]))
     = unordered_match (elemMatch (TArray 2 TInt)) [DInt 7, DInt 5] [DInt 5, DInt 7] {}
   \<and> unordered_match (elemMatch (TArray 2 TInt)) [DInt 7, DInt 5] [DInt 5, DInt 7] {} = Inr True"
proof -
  have "unordered_match (elemMatch (TArray 2 TInt)) [DInt 7, DInt 5] [DInt 5, DInt 7] {} = Inr True"
    by code_simp
  then show ?thesis
    using Matches_sequences_unordered [of "TArray 2 TInt" "[DInt 7, DInt 5]" "[DInt 5, DInt 7]"]
    by simp
qed

section \<open>Type mismatch\<close>

lemma type_mismatch:
  "te \<noteq> ta \<Longrightarrow> matchesValues (Val te de) (Val ta da) = Inr False"
  by (subst matchesValues.simps) simp

lemma dynamic_type_mismatch:
  "kindOf t = KInterface \<Longrightarrow> te \<noteq> ta \<Longrightarrow>
   matchesValues (Val t (DIface (Some (te, de)))) (Val t (DIface (Some (ta, da)))) = Inr False"
  by (subst matchesValues.simps) (simp add: iface_eq_def)

text \<open>
  Claim C7. When the types of the two values differ at a node, \<open>matchesValues\<close> returns
  false there, whatever their kinds and contents. This holds for the types
  \<^verbatim>\<open>reflect\<close> reports (line 50) and also for the dynamic types of two values held in
  interface-typed slots, which line 99 compares. \<^verbatim>\<open>Matches(int(1), "1")\<close> is false.
\<close>

theorem type_mismatch_is_false:
  "(te \<noteq> ta \<longrightarrow> matchesValues (Val te de) (Val ta da) = Inr False)
   \<and> (kindOf t = KInterface \<and> te \<noteq> ta \<longrightarrow>
        matchesValues (Val t (DIface (Some (te, de)))) (Val t (DIface (Some (ta, da)))) = Inr False)
   \<and> Matches (Some (TInt, DInt 1)) (Some (TString, DString ''1'')) = Inr False"
proof -
  have "Matches (Some (TInt, DInt 1)) (Some (TString, DString ''1'')) = Inr False"
    by code_simp
  then show ?thesis
    using type_mismatch [of te ta de da] dynamic_type_mismatch [of t te ta de da] by blast
qed

theorem type_mismatch_is_false_witness:
  "TPtr TInt \<noteq> TPtr TString
   \<and> matchesValues (Val (TPtr TInt) (DPtr None)) (Val (TPtr TString) (DPtr None)) = Inr False
   \<and> kindOf TInterface = KInterface \<and> TInt \<noteq> TString
   \<and> matchesValues (Val TInterface (DIface (Some (TInt, DInt 1))))
        (Val TInterface (DIface (Some (TString, DString ''1'')))) = Inr False"
  using type_mismatch_is_false [of "TPtr TInt" "TPtr TString" "DPtr None" "DPtr None"
      TInterface]
    type_mismatch_is_false [of TInt TString "DInt 1" "DString ''1''" TInterface]
  by simp


section \<open>Pointers\<close>

lemma pointer_rule:
  assumes "kindOf t = KPtr"
  shows "matchesValues (Val t (DPtr None)) (Val t (DPtr None)) = Inr True"
    and "matchesValues (Val t (DPtr None)) (Val t (DPtr (Some (b, y)))) = Inr False"
    and "matchesValues (Val t (DPtr (Some (a, x)))) (Val t (DPtr None)) = Inr False"
    and "matchesValues (Val t (DPtr (Some (a, x)))) (Val t (DPtr (Some (b, y)))) =
         matchesValues (Val (elemType t) x) (Val (elemType t) y)"
  using assms by (subst matchesValues.simps, simp)+

text \<open>
  Claim C8. For two pointers of the same type, \<open>matchesValues\<close> is true when both are
  nil, false when exactly one is nil, and otherwise the comparison of the two values
  pointed to.
\<close>

theorem pointers_nil_or_recurse:
  "kindOf t = KPtr \<longrightarrow>
     matchesValues (Val t (DPtr None)) (Val t (DPtr None)) = Inr True
     \<and> matchesValues (Val t (DPtr None)) (Val t (DPtr (Some (b, y)))) = Inr False
     \<and> matchesValues (Val t (DPtr (Some (a, x)))) (Val t (DPtr None)) = Inr False
     \<and> matchesValues (Val t (DPtr (Some (a, x)))) (Val t (DPtr (Some (b, y)))) =
         matchesValues (Val (elemType t) x) (Val (elemType t) y)"
  using pointer_rule [of t] by blast

theorem pointers_nil_or_recurse_witness:
  "kindOf (TPtr TInt) = KPtr
   \<and> matchesValues (Val (TPtr TInt) (DPtr None)) (Val (TPtr TInt) (DPtr None)) = Inr True
   \<and> matchesValues (Val (TPtr TInt) (DPtr None)) (Val (TPtr TInt) (DPtr (Some (8, DInt 3)))) = Inr False
   \<and> matchesValues (Val (TPtr TInt) (DPtr (Some (4, DInt 3)))) (Val (TPtr TInt) (DPtr None)) = Inr False
   \<and> matchesValues (Val (TPtr TInt) (DPtr (Some (4, DInt 3)))) (Val (TPtr TInt) (DPtr (Some (8, DInt 3))))
       = matchesValues (Val TInt (DInt 3)) (Val TInt (DInt 3))
   \<and> matchesValues (Val TInt (DInt 3)) (Val TInt (DInt 3)) = Inr True"
proof -
  have "matchesValues (Val TInt (DInt 3)) (Val TInt (DInt 3)) = Inr True"
    by code_simp
  then show ?thesis
    using pointers_nil_or_recurse [of "TPtr TInt" 8 "DInt 3" 4 "DInt 3"] by simp
qed

section \<open>Panics\<close>

text \<open>
  Claim C2 says that \<open>Matches\<close> never raises. The code has no \<^verbatim>\<open>recover\<close> and no
  \<^verbatim>\<open>IsValid\<close> test, and its \<^verbatim>\<open>switch\<close> has no case for \<^verbatim>\<open>reflect.Interface\<close>:
  \<^verbatim>\<open>Matches(nil, nil)\<close> panics in \<^verbatim>\<open>Type\<close> at line 50, a key of \<^verbatim>\<open>expected\<close>
  that \<^verbatim>\<open>actual\<close> lacks panics there too, and two \<^verbatim>\<open>[]interface{}\<close> holding a
  slice each panic in \<^verbatim>\<open>==\<close> at line 99.
\<close>

theorem Matches_can_panic:
  "Matches None None = Inl ZeroValueType
   \<and> Matches (stringIntMap [(''a'', 1), (''b'', 2)]) (stringIntMap [(''a'', 1)]) = Inl ZeroValueType
   \<and> Matches (jsonArray [jsonArray [jsonNumber 1]]) (jsonArray [jsonArray [jsonNumber 1]])
       = Inl (Uncomparable (TSlice TInterface))"
  by code_simp

text \<open>
  Claim C3 says that a key missing from \<^verbatim>\<open>actual\<close> reads as the zero value and that
  \<^verbatim>\<open>Matches({"a":1,"b":2}, {"a":1})\<close> is false. \<^verbatim>\<open>MapIndex\<close> returns the zero
  \<^verbatim>\<open>reflect.Value\<close> for a missing key, and line 50 panics on it: the comparison
  panics, in whatever order the keys are enumerated, also when the expected value is
  \<open>0\<close>, while a present \<open>0\<close> matches. Extra keys of \<^verbatim>\<open>actual\<close> are ignored, as the
  claim says.
\<close>

theorem missing_key_panics:
  "Matches (stringIntMap [(''a'', 1), (''b'', 2)]) (stringIntMap [(''a'', 1)]) = Inl ZeroValueType
   \<and> Matches (stringIntMap [(''b'', 2), (''a'', 1)]) (stringIntMap [(''a'', 1)]) = Inl ZeroValueType
   \<and> Matches (stringIntMap [(''a'', 0)]) (stringIntMap []) = Inl ZeroValueType
   \<and> Matches (stringIntMap [(''a'', 0)]) (stringIntMap [(''a'', 0)]) = Inr True
   \<and> Matches (stringIntMap [(''a'', 1)]) (stringIntMap [(''a'', 1), (''b'', 2)]) = Inr True"
  by code_simp

text \<open>
  What the claim says about keys that only \<^verbatim>\<open>actual\<close> holds is true of the code: the
  result depends on \<^verbatim>\<open>actual\<close> only through the lookups of the keys of
  \<^verbatim>\<open>expected\<close>, so entries under other keys change nothing.
\<close>

lemma map_rule:
  assumes "kindOf t = KMap"
  shows "matchesValues (Val t d) (Val t d') = mapLoop (Val t d) (Val t d') (MapKeys (Val t d))"
  using assms by (subst matchesValues.simps) simp

lemma mapLoop_cong_actual:
  assumes "\<And>key. key \<in> set keys \<Longrightarrow> MapIndex a key = MapIndex a' key"
  shows "mapLoop e a keys = mapLoop e a' keys"
  using assms by (induction keys) (simp_all add: mapLoop.simps split: sum.splits)

lemma find_append_none:
  "find P ys = None \<Longrightarrow> find P (xs @ ys) = find P xs"
  by (induction xs) auto

lemma extra_keys_ignored:
  assumes k: "kindOf t = KMap"
    and x: "\<And>x e. x \<in> set extra \<Longrightarrow> e \<in> set es \<Longrightarrow> \<not> key_eq (fst x) (fst e)"
  shows "Matches (Some (t, DMap es)) (Some (t, DMap (as @ extra))) =
         Matches (Some (t, DMap es)) (Some (t, DMap as))"
proof -
  have "MapIndex (Val t (DMap (as @ extra))) key = MapIndex (Val t (DMap as)) key"
    if "key \<in> set (MapKeys (Val t (DMap es)))" for key
  proof -
    from that obtain e where e: "e \<in> set es" and key: "key = Val (keyType t) (fst e)"
      by auto
    have "find (\<lambda>en. key_eq (fst en) (fst e)) extra = None"
      using x [OF _ e] unfolding find_None_iff by blast
    then show ?thesis
      using key by (simp add: find_append_none)
  qed
  then have "mapLoop (Val t (DMap es)) (Val t (DMap (as @ extra))) (MapKeys (Val t (DMap es))) =
      mapLoop (Val t (DMap es)) (Val t (DMap as)) (MapKeys (Val t (DMap es)))"
    by (intro mapLoop_cong_actual)
  then show ?thesis
    using map_rule [OF k] by (simp add: Matches_def)
qed

lemma empty_headers_match: "Matches (headerValue []) (headerValue []) = Inr True"
  by code_simp

lemma nested_json_panics:
  "Matches (jsonObject [(''a'', jsonArray [jsonNumber 1, jsonNumber 2])])
     (jsonObject [(''a'', jsonArray [jsonNumber 2, jsonNumber 1])])
   = Inl (Uncomparable (TSlice TInterface))"
  by code_simp

text \<open>
  Claim C5 says that the bodies \<^verbatim>\<open>{"a":[1,2]}\<close> and \<^verbatim>\<open>{"a":[2,1]}\<close> match. For
  every \<open>Unmarshal\<close> that decodes the two bodies as \<^verbatim>\<open>encoding/json\<close> does, the call
  panics: the value under \<^verbatim>\<open>"a"\<close> has kind \<^verbatim>\<open>Interface\<close>, so line 99 compares two
  \<^verbatim>\<open>[]interface{}\<close> with \<^verbatim>\<open>==\<close>.
\<close>

theorem json_body_nested_array_panics:
  \<open>Unmarshal ''{"a":[1,2]}'' = Some (jsonObject [(''a'', jsonArray [jsonNumber 1, jsonNumber 2])])
   \<and> Unmarshal ''{"a":[2,1]}'' = Some (jsonObject [(''a'', jsonArray [jsonNumber 2, jsonNumber 1])])
   \<longrightarrow> fst (MatchesHTTPResponse Unmarshal
          (plainResponse 200 (newStream ''{"a":[1,2]}'' None))
          (plainResponse 200 (newStream ''{"a":[2,1]}'' None)))
       = Inl (Uncomparable (TSlice TInterface))\<close>
  by (simp add: MatchesHTTPResponse_def plainResponse_def newStream_def ReadAll_def
      empty_headers_match nested_json_panics)

theorem json_body_nested_array_panics_witness:
  \<open>jsonExamples ''{"a":[1,2]}'' = Some (jsonObject [(''a'', jsonArray [jsonNumber 1, jsonNumber 2])])
   \<and> jsonExamples ''{"a":[2,1]}'' = Some (jsonObject [(''a'', jsonArray [jsonNumber 2, jsonNumber 1])])
   \<and> fst (MatchesHTTPResponse jsonExamples
          (plainResponse 200 (newStream ''{"a":[1,2]}'' None))
          (plainResponse 200 (newStream ''{"a":[2,1]}'' None)))
       = Inl (Uncomparable (TSlice TInterface))\<close>
  using json_body_nested_array_panics [of jsonExamples]
  by (simp add: jsonExamples_def)


text \<open>
  The fallback to the raw bytes is as the claim says: for every \<open>U\<close> that does not
  parse \<^verbatim>\<open>hello\<close>, the bodies \<^verbatim>\<open>hello\<close> and \<^verbatim>\<open>hello\<close> match and \<^verbatim>\<open>hello\<close> and
  \<^verbatim>\<open>hullo\<close> do not.
\<close>

lemma raw_body_examples:
  assumes "U ''hello'' = None"
  shows "fst (MatchesHTTPResponse U (plainResponse 200 (newStream ''hello'' None))
           (plainResponse 200 (newStream ''hello'' None))) = Inr True"
    and "fst (MatchesHTTPResponse U (plainResponse 200 (newStream ''hello'' None))
           (plainResponse 200 (newStream ''hullo'' None))) = Inr False"
  using assms
  by (simp_all add: MatchesHTTPResponse_def plainResponse_def newStream_def ReadAll_def
      empty_headers_match)


section \<open>Reading the bodies\<close>

lemma iface_eq_one_nil:
  "(x = None) \<noteq> (y = None) \<Longrightarrow> iface_eq x y = Inr False"
  by (cases x; cases y) (auto simp: iface_eq_def)

lemma iface_eq_pointers:
  "iface_eq (Some (TPtr t1, DPtr (Some (p1, d1)))) (Some (TPtr t2, DPtr (Some (p2, d2))))
   = Inr (t1 = t2 \<and> p1 = p2)"
  by (simp add: iface_eq_def)

lemma read_failure_result:
  assumes "StatusCode e = StatusCode a"
    and "Matches (headerValue (Header e)) (headerValue (Header a)) = Inr True"
    and "failure (Body e) \<noteq> None \<or> failure (Body a) \<noteq> None"
  shows "MatchesHTTPResponse U e a =
     (iface_eq (failure (Body e)) (failure (Body a)), snd (ReadAll (Body e)), snd (ReadAll (Body a)))"
  using assms by (auto simp: MatchesHTTPResponse_def ReadAll_def)

lemma read_success_result:
  assumes "StatusCode e = StatusCode a"
    and "Matches (headerValue (Header e)) (headerValue (Header a)) = Inr True"
    and "failure (Body e) = None" and "failure (Body a) = None"
  shows "fst (MatchesHTTPResponse U e a) =
     (case Matches (headerValue (Trailer e)) (headerValue (Trailer a)) of
        Inl p \<Rightarrow> Inl p
      | Inr tm \<Rightarrow>
          if \<not> tm then Inr False
          else (case U (pending (Body e)) of
                  None \<Rightarrow> Inr (pending (Body e) = pending (Body a))
                | Some ev \<Rightarrow>
                    (case U (pending (Body a)) of
                       None \<Rightarrow> Inr False
                     | Some av \<Rightarrow> Matches ev av)))"
  using assms by (auto simp: MatchesHTTPResponse_def ReadAll_def split: sum.splits option.splits)

text \<open>
  Claim C4, amended. When the status codes are equal and the headers match, each body is
  read once, and if either read fails the result is the comparison
  \<^verbatim>\<open>expErr == actErr\<close> of the two errors: false when exactly one read failed, and
  when both failed true exactly when the two errors are equal (for errors that are
  pointers: the same pointer type and address). When both reads succeed the result is
  that of the trailer and body comparisons.
\<close>

theorem read_failure_verdict:
  "StatusCode e = StatusCode a
   \<and> Matches (headerValue (Header e)) (headerValue (Header a)) = Inr True \<longrightarrow>
     snd (MatchesHTTPResponse U e a) = (snd (ReadAll (Body e)), snd (ReadAll (Body a)))
     \<and> reads (snd (ReadAll (Body e))) = reads (Body e) + 1
     \<and> reads (snd (ReadAll (Body a))) = reads (Body a) + 1
     \<and> (failure (Body e) \<noteq> None \<or> failure (Body a) \<noteq> None \<longrightarrow>
          fst (MatchesHTTPResponse U e a) = iface_eq (failure (Body e)) (failure (Body a)))
     \<and> ((failure (Body e) = None) \<noteq> (failure (Body a) = None) \<longrightarrow>
          fst (MatchesHTTPResponse U e a) = Inr False)
     \<and> (failure (Body e) = Some (TPtr t1, DPtr (Some (p1, d1)))
          \<and> failure (Body a) = Some (TPtr t2, DPtr (Some (p2, d2))) \<longrightarrow>
          fst (MatchesHTTPResponse U e a) = Inr (t1 = t2 \<and> p1 = p2))
     \<and> (failure (Body e) = None \<and> failure (Body a) = None \<longrightarrow>
          fst (MatchesHTTPResponse U e a) =
            (case Matches (headerValue (Trailer e)) (headerValue (Trailer a)) of
               Inl p \<Rightarrow> Inl p
             | Inr tm \<Rightarrow>
                 if \<not> tm then Inr False
                 else (case U (pending (Body e)) of
                         None \<Rightarrow> Inr (pending (Body e) = pending (Body a))
                       | Some ev \<Rightarrow>
                           (case U (pending (Body a)) of
                              None \<Rightarrow> Inr False
                            | Some av \<Rightarrow> Matches ev av))))"
proof (intro impI, elim conjE)
  assume st: "StatusCode e = StatusCode a"
    and hd: "Matches (headerValue (Header e)) (headerValue (Header a)) = Inr True"
  have 1: "snd (MatchesHTTPResponse U e a) = (snd (ReadAll (Body e)), snd (ReadAll (Body a)))"
    using st hd
    by (auto simp: MatchesHTTPResponse_def ReadAll_def split: sum.splits option.splits)
  have 2: "reads (snd (ReadAll s)) = reads s + 1" for s
    by (simp add: ReadAll_def)
  have 3: "fst (MatchesHTTPResponse U e a) = iface_eq (failure (Body e)) (failure (Body a))"
    if "failure (Body e) \<noteq> None \<or> failure (Body a) \<noteq> None"
    using read_failure_result [OF st hd that] by simp
  have 4: "fst (MatchesHTTPResponse U e a) = Inr False"
    if "(failure (Body e) = None) \<noteq> (failure (Body a) = None)"
    using that 3 iface_eq_one_nil [OF that] by auto
  have 5: "fst (MatchesHTTPResponse U e a) = Inr (t1 = t2 \<and> p1 = p2)"
    if "failure (Body e) = Some (TPtr t1, DPtr (Some (p1, d1)))"
      and "failure (Body a) = Some (TPtr t2, DPtr (Some (p2, d2)))"
    using that 3 iface_eq_pointers [of t1 p1 d1 t2 p2 d2] by simp
  show "snd (MatchesHTTPResponse U e a) = (snd (ReadAll (Body e)), snd (ReadAll (Body a)))
     \<and> reads (snd (ReadAll (Body e))) = reads (Body e) + 1
     \<and> reads (snd (ReadAll (Body a))) = reads (Body a) + 1
     \<and> (failure (Body e) \<noteq> None \<or> failure (Body a) \<noteq> None \<longrightarrow>
          fst (MatchesHTTPResponse U e a) = iface_eq (failure (Body e)) (failure (Body a)))
     \<and> ((failure (Body e) = None) \<noteq> (failure (Body a) = None) \<longrightarrow>
          fst (MatchesHTTPResponse U e a) = Inr False)
     \<and> (failure (Body e) = Some (TPtr t1, DPtr (Some (p1, d1)))
          \<and> failure (Body a) = Some (TPtr t2, DPtr (Some (p2, d2))) \<longrightarrow>
          fst (MatchesHTTPResponse U e a) = Inr (t1 = t2 \<and> p1 = p2))
     \<and> (failure (Body e) = None \<and> failure (Body a) = None \<longrightarrow>
          fst (MatchesHTTPResponse U e a) =
            (case Matches (headerValue (Trailer e)) (headerValue (Trailer a)) of
               Inl p \<Rightarrow> Inl p
             | Inr tm \<Rightarrow>
                 if \<not> tm then Inr False
                 else (case U (pending (Body e)) of
                         None \<Rightarrow> Inr (pending (Body e) = pending (Body a))
                       | Some ev \<Rightarrow>
                           (case U (pending (Body a)) of
                              None \<Rightarrow> Inr False
                            | Some av \<Rightarrow> Matches ev av))))"
    using 1 2 3 4 5 read_success_result [OF st hd] by blast
qed

text \<open>
  The claim as stated fails when both reads fail with different errors: the result is
  false.
\<close>

theorem both_reads_fail_differently:
  "StatusCode (plainResponse 200 (newStream [] (errorNew 1 ''unexpected EOF'')))
     = StatusCode (plainResponse 200 (newStream [] (errorNew 2 ''connection reset'')))
   \<and> Matches (headerValue (Header (plainResponse 200 (newStream [] (errorNew 1 ''unexpected EOF'')))))
        (headerValue (Header (plainResponse 200 (newStream [] (errorNew 2 ''connection reset'')))))
      = Inr True
   \<and> failure (Body (plainResponse 200 (newStream [] (errorNew 1 ''unexpected EOF'')))) \<noteq> None
   \<and> failure (Body (plainResponse 200 (newStream [] (errorNew 2 ''connection reset'')))) \<noteq> None
   \<and> fst (MatchesHTTPResponse jsonExamples
        (plainResponse 200 (newStream [] (errorNew 1 ''unexpected EOF'')))
        (plainResponse 200 (newStream [] (errorNew 2 ''connection reset'')))) = Inr False"
  by (simp add: MatchesHTTPResponse_def plainResponse_def newStream_def ReadAll_def
      empty_headers_match errorNew_def iface_eq_def)

theorem read_failure_verdict_witness:
  "fst (MatchesHTTPResponse jsonExamples
        (plainResponse 200 (newStream [] (errorNew 1 ''unexpected EOF'')))
        (plainResponse 200 (newStream [] (errorNew 1 ''unexpected EOF'')))) = Inr True
   \<and> fst (MatchesHTTPResponse jsonExamples
        (plainResponse 200 (newStream ''hello'' None))
        (plainResponse 200 (newStream [] (errorNew 1 ''unexpected EOF'')))) = Inr False
   \<and> reads (fst (snd (MatchesHTTPResponse jsonExamples
        (plainResponse 200 (newStream ''hello'' None))
        (plainResponse 200 (newStream [] (errorNew 1 ''unexpected EOF'')))))) = 1"
proof -
  let ?t = "TNamed ''errors.errorString'' (TStruct [(''s'', ''errors'', TString)])"
  let ?d = "DStruct [DString ''unexpected EOF'']"
  let ?E = "plainResponse 200 (newStream [] (errorNew 1 ''unexpected EOF''))"
  let ?H = "plainResponse 200 (newStream ''hello'' None)"
  have st: "StatusCode ?E = StatusCode ?E" "StatusCode ?H = StatusCode ?E"
    by (simp_all add: plainResponse_def)
  have hd: "Matches (headerValue (Header ?E)) (headerValue (Header ?E)) = Inr True"
    "Matches (headerValue (Header ?H)) (headerValue (Header ?E)) = Inr True"
    by (simp_all add: plainResponse_def empty_headers_match)
  have fE: "failure (Body ?E) = Some (TPtr ?t, DPtr (Some (1, ?d)))"
    by (simp add: plainResponse_def newStream_def errorNew_def)
  have fH: "failure (Body ?H) = None" and rH: "reads (Body ?H) = 0"
    by (simp_all add: plainResponse_def newStream_def)
  have 1: "fst (MatchesHTTPResponse jsonExamples ?E ?E) = Inr True"
    using read_failure_verdict [of ?E ?E jsonExamples ?t 1 ?d ?t 1 ?d] st(1) hd(1) fE
    by (simp add: iface_eq_def)
  have 2: "fst (MatchesHTTPResponse jsonExamples ?H ?E) = Inr False
      \<and> snd (MatchesHTTPResponse jsonExamples ?H ?E) = (snd (ReadAll (Body ?H)), snd (ReadAll (Body ?E)))
      \<and> reads (snd (ReadAll (Body ?H))) = reads (Body ?H) + 1"
    using read_failure_verdict [of ?H ?E jsonExamples] st(2) hd(2) fE fH
    by (simp add: iface_eq_def)
  show ?thesis
    using 1 2 rH by simp
qed


lemma bodies_untouched:
  assumes "StatusCode e \<noteq> StatusCode a
    \<or> Matches (headerValue (Header e)) (headerValue (Header a)) \<noteq> Inr True"
  shows "snd (MatchesHTTPResponse U e a) = (Body e, Body a)"
  using assms by (auto simp: MatchesHTTPResponse_def split: sum.splits)

lemma bodies_read:
  assumes "StatusCode e = StatusCode a"
    and "Matches (headerValue (Header e)) (headerValue (Header a)) = Inr True"
  shows "snd (MatchesHTTPResponse U e a) = (snd (ReadAll (Body e)), snd (ReadAll (Body a)))"
  using assms
  by (auto simp: MatchesHTTPResponse_def ReadAll_def split: sum.splits option.splits)

lemma ReadAll_drains:
  "reads (snd (ReadAll s)) = reads s + 1" "pending (snd (ReadAll s)) = []"
  "fst (fst (ReadAll s)) = pending s"
  by (simp_all add: ReadAll_def)

text \<open>
  Claim C10, amended. When the status codes are equal and the headers match, each of the
  two bodies is read exactly once and left empty, before the trailers and the bodies are
  compared; when the status codes differ or the header comparison does not return true,
  the call returns without reading either body. No path reads a body twice.
\<close>

theorem bodies_read_once_after_header_check:
  "(StatusCode e = StatusCode a
      \<and> Matches (headerValue (Header e)) (headerValue (Header a)) = Inr True \<longrightarrow>
        snd (MatchesHTTPResponse U e a) = (snd (ReadAll (Body e)), snd (ReadAll (Body a)))
        \<and> reads (fst (snd (MatchesHTTPResponse U e a))) = reads (Body e) + 1
        \<and> reads (snd (snd (MatchesHTTPResponse U e a))) = reads (Body a) + 1
        \<and> pending (fst (snd (MatchesHTTPResponse U e a))) = []
        \<and> pending (snd (snd (MatchesHTTPResponse U e a))) = [])
   \<and> (StatusCode e \<noteq> StatusCode a
      \<or> Matches (headerValue (Header e)) (headerValue (Header a)) \<noteq> Inr True \<longrightarrow>
        snd (MatchesHTTPResponse U e a) = (Body e, Body a))
   \<and> reads (fst (snd (MatchesHTTPResponse U e a))) \<le> reads (Body e) + 1
   \<and> reads (snd (snd (MatchesHTTPResponse U e a))) \<le> reads (Body a) + 1"
proof (cases "StatusCode e = StatusCode a
      \<and> Matches (headerValue (Header e)) (headerValue (Header a)) = Inr True")
  case True
  then show ?thesis
    using bodies_read [of e a U] ReadAll_drains by simp
next
  case False
  then show ?thesis
    using bodies_untouched [of e a U] by auto
qed

text \<open>
  The claim as stated fails on the early returns: with status 200 against 404 the result
  is false and both bodies are still unread.
\<close>

theorem status_mismatch_leaves_bodies_unread:
  "fst (MatchesHTTPResponse jsonExamples
      (plainResponse 200 (newStream ''hello'' None))
      (plainResponse 404 (newStream ''hello'' None))) = Inr False
   \<and> reads (fst (snd (MatchesHTTPResponse jsonExamples
      (plainResponse 200 (newStream ''hello'' None))
      (plainResponse 404 (newStream ''hello'' None))))) = 0
   \<and> pending (fst (snd (MatchesHTTPResponse jsonExamples
      (plainResponse 200 (newStream ''hello'' None))
      (plainResponse 404 (newStream ''hello'' None))))) = ''hello''
   \<and> reads (snd (snd (MatchesHTTPResponse jsonExamples
      (plainResponse 200 (newStream ''hello'' None))
      (plainResponse 404 (newStream ''hello'' None))))) = 0
   \<and> pending (snd (snd (MatchesHTTPResponse jsonExamples
      (plainResponse 200 (newStream ''hello'' None))
      (plainResponse 404 (newStream ''hello'' None))))) = ''hello''"
  by (simp add: MatchesHTTPResponse_def plainResponse_def newStream_def)

theorem bodies_read_once_after_header_check_witness:
  "reads (fst (snd (MatchesHTTPResponse jsonExamples
      (plainResponse 200 (newStream ''hello'' None))
      (plainResponse 200 (newStream ''hullo'' None))))) = 1
   \<and> pending (snd (snd (MatchesHTTPResponse jsonExamples
      (plainResponse 200 (newStream ''hello'' None))
      (plainResponse 200 (newStream ''hullo'' None))))) = []
   \<and> snd (MatchesHTTPResponse jsonExamples
      (plainResponse 200 (newStream ''hello'' None))
      (plainResponse 404 (newStream ''hullo'' None)))
     = (newStream ''hello'' None, newStream ''hullo'' None)"
proof -
  let ?e = "plainResponse 200 (newStream ''hello'' None)"
  let ?a = "plainResponse 200 (newStream ''hullo'' None)"
  let ?b = "plainResponse 404 (newStream ''hullo'' None)"
  have st: "StatusCode ?e = StatusCode ?a" "StatusCode ?e \<noteq> StatusCode ?b"
    by (simp_all add: plainResponse_def)
  have hd: "Matches (headerValue (Header ?e)) (headerValue (Header ?a)) = Inr True"
    by (simp add: plainResponse_def empty_headers_match)
  have bd: "reads (Body ?e) = 0" "Body ?e = newStream ''hello'' None"
    "Body ?b = newStream ''hullo'' None"
    by (simp_all add: plainResponse_def newStream_def)
  have 1: "reads (fst (snd (MatchesHTTPResponse jsonExamples ?e ?a))) = reads (Body ?e) + 1
    \<and> pending (snd (snd (MatchesHTTPResponse jsonExamples ?e ?a))) = []"
    using bodies_read_once_after_header_check [of ?e ?a jsonExamples] st(1) hd
    by (simp add: ReadAll_drains)
  have 2: "snd (MatchesHTTPResponse jsonExamples ?e ?b) = (Body ?e, Body ?b)"
    using bodies_read_once_after_header_check [of ?e ?b jsonExamples] st(2) by simp
  show ?thesis
    using 1 2 bd by simp
qed


section \<open>Structs\<close>

lemma structLoop_unfold:
  "structLoop (Val t d) (Val t d') i =
     (if i < length (fieldsOf t) then
        if PkgPath (TypeField t i) \<noteq> [] then structLoop (Val t d) (Val t d') (Suc i)
        else
          (case matchesValues (FieldOf (Val t d) i) (FieldOf (Val t d') i) of
             Inl p \<Rightarrow> Inl p
           | Inr m \<Rightarrow> if m then structLoop (Val t d) (Val t d') (Suc i) else Inr False)
      else Inr True)"
  by (subst structLoop.simps) (simp split: sum.splits)



lemma struct_rule:
  assumes "kindOf t = KStruct"
  shows "matchesValues (Val t d) (Val t d') = structLoop (Val t d) (Val t d') 0"
  using assms by (subst matchesValues.simps) simp

section \<open>Reflexivity\<close>

lemma comparable_kind:
  "comparable t \<Longrightarrow> kindOf t \<noteq> KSlice \<and> kindOf t \<noteq> KMap \<and> kindOf t \<noteq> KFunc"
  by (induction t) auto

lemma comparable_elemType:
  "comparable t \<Longrightarrow> kindOf t = KArray \<Longrightarrow> comparable (elemType t)"
  by (induction t) auto

lemma comparable_fieldsOf:
  "comparable t \<Longrightarrow> kindOf t = KStruct \<Longrightarrow> f \<in> set (fieldsOf t) \<Longrightarrow> comparable (fieldType f)"
  by (induction t) (auto simp: list_all_iff fieldType_def)

lemma go_eq_list_self:
  "(\<And>x. x \<in> set xs \<Longrightarrow> go_eq x x = Inr True) \<Longrightarrow> go_eq_list xs xs = Inr True"
  by (induction xs) auto

lemma go_eq_self:
  "wellTyped t d \<Longrightarrow> comparable t \<Longrightarrow> clean d \<Longrightarrow> go_eq d d = Inr True"
proof (induction d arbitrary: t)
  case (DFloat f)
  then show ?case by (simp add: float_eq_def)
next
  case (DIface x)
  show ?case
  proof (cases x)
    case None
    then show ?thesis by simp
  next
    case (Some p)
    obtain t' d' where p: "p = (t', d')" by (cases p)
    have "go_eq d' d' = Inr True"
      using DIface.IH [of p d' t'] DIface.prems Some p by auto
    then show ?thesis
      using DIface.prems Some p by simp
  qed
next
  case (DSeq xs)
  have k: "kindOf t = KArray"
    using DSeq.prems comparable_kind [of t] by auto
  have "go_eq x x = Inr True" if "x \<in> set xs" for x
    using DSeq.IH [OF that, of "elemType t"] DSeq.prems that comparable_elemType [OF _ k]
    by (auto simp: list_all_iff)
  then show ?case
    using go_eq_list_self [of xs] by simp
next
  case (DStruct ds)
  have k: "kindOf t = KStruct" and l2: "list_all2 (\<lambda>f d. wellTyped (fieldType f) d) (fieldsOf t) ds"
    using DStruct.prems by auto
  have "go_eq x x = Inr True" if "x \<in> set ds" for x
  proof -
    from that obtain i where i: "i < length ds" "x = ds ! i"
      unfolding in_set_conv_nth by blast
    have len: "length (fieldsOf t) = length ds"
      using l2 by (rule list_all2_lengthD)
    have wt: "wellTyped (fieldType (fieldsOf t ! i)) x"
      using l2 i by (simp add: list_all2_conv_all_nth)
    have "fieldsOf t ! i \<in> set (fieldsOf t)"
      using i len by simp
    then have "comparable (fieldType (fieldsOf t ! i))"
      using comparable_fieldsOf [OF _ k] DStruct.prems by blast
    then show ?thesis
      using DStruct.IH [OF that wt] DStruct.prems that by (auto simp: list_all_iff)
  qed
  then show ?case
    using go_eq_list_self [of ds] by simp
next
  case (DMap es)
  then show ?case using comparable_kind [of t] by auto
qed auto


lemma unconsumed_prefix:
  assumes "i \<le> length ys"
  shows "unconsumed {0..<i} ys = [i..<length ys]"
proof -
  have "[0..<length ys] = [0..<i] @ [i..<length ys]"
    using assms upt_add_eq_append [of 0 i "length ys - i"] by simp
  then show ?thesis
    by (simp add: unconsumed_def)
qed

lemma unordered_match_diagonal:
  assumes len: "length xs = length ys"
    and m: "\<And>i. i < length xs \<Longrightarrow> m (xs ! i) (ys ! i) = Inr True"
  shows "i \<le> length xs \<Longrightarrow> unordered_match m (drop i xs) ys {0..<i} = Inr True"
proof (induction "length xs - i" arbitrary: i)
  case 0
  then show ?case by simp
next
  case (Suc n)
  then have i: "i < length xs" and n: "n = length xs - Suc i" by auto
  have dr: "drop i xs = xs ! i # drop (Suc i) xs"
    using i by (simp add: Cons_nth_drop_Suc)
  have un: "unconsumed {0..<i} ys = i # [Suc i..<length ys]"
    using i len unconsumed_prefix [of i ys] by (simp add: upt_conv_Cons)
  have ins: "insert i {0..<i} = {0..<Suc i}"
    by auto
  show ?case
    using Suc.hyps(1) [OF n] i m [OF i] by (simp add: dr un ins)
qed

lemma find_copy:
  assumes "list_all2 (\<lambda>e e'. fst e = fst e' \<and> R (snd e) (snd e')) es es'"
  shows "rel_option (\<lambda>e e'. R (snd e) (snd e'))
           (find (\<lambda>en. P (fst en)) es) (find (\<lambda>en. P (fst en)) es')"
  using assms by (induction rule: list_all2_induct) auto

lemma scalar_comparable:
  "kindOf t = KBool \<or> kindOf t = KInt \<or> kindOf t = KInt64 \<or> kindOf t = KFloat64
     \<or> kindOf t = KString \<or> kindOf t = KInterface \<or> kindOf t = KPtr \<Longrightarrow> comparable t"
  by (induction t) auto

lemma default_case:
  assumes "kindOf t \<noteq> KPtr" "kindOf t \<noteq> KArray" "kindOf t \<noteq> KSlice"
    "kindOf t \<noteq> KStruct" "kindOf t \<noteq> KMap"
  shows "matchesValues (Val t d) (Val t d') = iface_eq (Interface (Val t d)) (Interface (Val t d'))"
  using assms by (subst matchesValues.simps) simp

lemma structLoop_all_true:
  assumes "\<And>i. i < length (fieldsOf t) \<Longrightarrow> PkgPath (TypeField t i) = [] \<Longrightarrow>
             matchesValues (FieldOf (Val t d) i) (FieldOf (Val t d') i) = Inr True"
  shows "structLoop (Val t d) (Val t d') i = Inr True"
proof (induction "length (fieldsOf t) - i" arbitrary: i)
  case 0
  then show ?case
    by (simp add: structLoop_unfold [of t _ _ i])
next
  case (Suc n)
  then have i: "i < length (fieldsOf t)" and n: "n = length (fieldsOf t) - (i + 1)"
    by auto
  show ?case
    using Suc.hyps(1) [OF n] i assms [OF i]
    by (simp add: structLoop_unfold [of t _ _ i] del: FieldOf.simps)
qed

lemma mapLoop_all_true:
  assumes "\<And>key. key \<in> set keys \<Longrightarrow>
             matchesValues (MapIndex e key) (MapIndex a key) = Inr True"
  shows "mapLoop e a keys = Inr True"
  using assms by (induction keys) (simp_all add: mapLoop.simps)


lemma scalar_self:
  assumes "wellTyped t d" "clean d"
    and "kindOf t = KBool \<or> kindOf t = KInt \<or> kindOf t = KInt64 \<or> kindOf t = KFloat64
      \<or> kindOf t = KString"
  shows "matchesValues (Val t d) (Val t d) = Inr True"
proof -
  have "comparable t"
    using assms(3) scalar_comparable [of t] by blast
  then have "go_eq d d = Inr True"
    using go_eq_self assms by blast
  then show ?thesis
    using assms(3) \<open>comparable t\<close> by (auto simp: default_case iface_eq_def)
qed

lemma matchesValues_copy:
  "wellTyped t d \<Longrightarrow> clean d \<Longrightarrow> copyOf d d' \<Longrightarrow>
   matchesValues (Val t d) (Val t d') = Inr True"
proof (induction d arbitrary: t d')
  case (DBool b)
  then have "d' = DBool b" "kindOf t = KBool" by simp_all
  then show ?case
    using scalar_self [of t "DBool b"] by simp
next
  case (DInt n)
  then have "d' = DInt n" "kindOf t = KInt \<or> kindOf t = KInt64" by simp_all
  then show ?case
    using scalar_self [of t "DInt n"] by auto
next
  case (DFloat f)
  then have "d' = DFloat f" "kindOf t = KFloat64" "f \<noteq> NaN" by simp_all
  then show ?case
    using scalar_self [of t "DFloat f"] by simp
next
  case (DString x)
  then have "d' = DString x" "kindOf t = KString" by simp_all
  then show ?case
    using scalar_self [of t "DString x"] by simp
next
  case (DFunc f)
  then show ?case by simp
next
  case (DIface x)
  then have k: "kindOf t = KInterface" and d': "d' = DIface x"
    by (cases x; auto)+
  show ?case
  proof (cases x)
    case None
    then show ?thesis using k d' by (simp add: default_case iface_eq_def)
  next
    case (Some p)
    obtain t0 d0 where p: "p = (t0, d0)" by (cases p)
    have "go_eq d0 d0 = Inr True"
      using go_eq_self [of t0 d0] DIface.prems Some p by simp
    then show ?thesis
      using k d' Some p DIface.prems by (simp add: default_case iface_eq_def)
  qed
next
  case (DPtr p)
  then have k: "kindOf t = KPtr" by (cases p) auto
  show ?case
  proof (cases p)
    case None
    then show ?thesis
      using DPtr.prems pointer_rule(1) [OF k] by simp
  next
    case (Some q)
    obtain a x where q: "q = (a, x)" by (cases q)
    obtain b x' where d': "d' = DPtr (Some (b, x'))" and c: "copyOf x x'"
      using DPtr.prems(3) Some q by (auto split: data.splits option.splits)
    have "matchesValues (Val (elemType t) x) (Val (elemType t) x') = Inr True"
      using DPtr.IH [of q x "elemType t" x'] DPtr.prems Some q c by simp
    then show ?thesis
      using pointer_rule(4) [OF k] Some q d' by simp
  qed
next
  case (DSeq xs)
  then obtain ys where d': "d' = DSeq ys" and c: "list_all2 copyOf xs ys"
    by (auto split: data.splits)
  have k: "kindOf t = KArray \<or> kindOf t = KSlice"
    using DSeq.prems by auto
  have len: "length xs = length ys"
    using c by (rule list_all2_lengthD)
  have el: "elemMatch t (xs ! i) (ys ! i) = Inr True" if "i < length xs" for i
  proof -
    have "xs ! i \<in> set xs" using that by simp
    moreover have "wellTyped (elemType t) (xs ! i)" "clean (xs ! i)"
      using DSeq.prems that by (simp_all add: list_all_length)
    moreover have "copyOf (xs ! i) (ys ! i)"
      using c that by (simp add: list_all2_conv_all_nth)
    ultimately show ?thesis
      unfolding elemMatch_def by (rule DSeq.IH)
  qed
  have "unordered_match (elemMatch t) (drop 0 xs) ys {0..<0} = Inr True"
    using unordered_match_diagonal [of xs ys "elemMatch t" 0] len el by simp
  then show ?case
    using sequence_rule [OF k, of xs ys] len d' by (simp add: Matches_def)
next
  case (DStruct ds)
  then obtain ds' where d': "d' = DStruct ds'" and c: "list_all2 copyOf ds ds'"
    by (auto split: data.splits)
  have k: "kindOf t = KStruct"
    and wt: "list_all2 (\<lambda>f d. wellTyped (fieldType f) d) (fieldsOf t) ds"
    using DStruct.prems by auto
  have len: "length ds = length (fieldsOf t)" "length ds' = length (fieldsOf t)"
    using list_all2_lengthD [OF wt] list_all2_lengthD [OF c] by simp_all
  have "matchesValues (FieldOf (Val t (DStruct ds)) i) (FieldOf (Val t (DStruct ds')) i) = Inr True"
    if "i < length (fieldsOf t)" for i
  proof -
    have "ds ! i \<in> set ds" using that len by simp
    moreover have "wellTyped (fieldType (TypeField t i)) (ds ! i)"
      using wt that by (simp add: list_all2_conv_all_nth)
    moreover have "clean (ds ! i)"
      using DStruct.prems that len by (simp add: list_all_length)
    moreover have "copyOf (ds ! i) (ds' ! i)"
      using c that len by (simp add: list_all2_conv_all_nth)
    ultimately have "matchesValues (Val (fieldType (TypeField t i)) (ds ! i))
        (Val (fieldType (TypeField t i)) (ds' ! i)) = Inr True"
      by (rule DStruct.IH)
    then show ?thesis
      using that len by simp
  qed
  then have "structLoop (Val t (DStruct ds)) (Val t (DStruct ds')) 0 = Inr True"
    by (intro structLoop_all_true)
  then show ?case
    using struct_rule [OF k] d' by simp
next
  case (DMap es)
  then obtain es' where d': "d' = DMap es'"
    and c: "list_all2 (\<lambda>e e'. fst e = fst e' \<and> copyOf (snd e) (snd e')) es es'"
    by (auto split: data.splits)
  have k: "kindOf t = KMap" and ck: "comparable (keyType t)"
    using DMap.prems by auto
  have "matchesValues (MapIndex (Val t (DMap es)) key) (MapIndex (Val t (DMap es')) key) = Inr True"
    if "key \<in> set (MapKeys (Val t (DMap es)))" for key
  proof -
    from that obtain e0 where e0: "e0 \<in> set es" and key: "key = Val (keyType t) (fst e0)"
      by auto
    have "wellTyped (keyType t) (fst e0)" "clean (fst e0)"
      using DMap.prems e0 by (auto simp: list_all_iff)
    then have "key_eq (fst e0) (fst e0)"
      using go_eq_self [OF _ ck] by (simp add: key_eq_def)
    then have "find (\<lambda>en. key_eq (fst en) (fst e0)) es \<noteq> None"
      using e0 unfolding find_None_iff by blast
    then obtain en where en: "find (\<lambda>en. key_eq (fst en) (fst e0)) es = Some en"
      by blast
    then have ens: "en \<in> set es"
      by (auto simp: find_Some_iff)
    obtain en' where en': "find (\<lambda>en. key_eq (fst en) (fst e0)) es' = Some en'"
      and cc: "copyOf (snd en) (snd en')"
      using find_copy [OF c, of "\<lambda>k. key_eq k (fst e0)"] en
      by (auto simp: option_rel_Some1)
    have "wellTyped (elemType t) (snd en)" "clean (snd en)"
      using DMap.prems ens by (auto simp: list_all_iff)
    then have "matchesValues (Val (elemType t) (snd en)) (Val (elemType t) (snd en')) = Inr True"
      using DMap.IH [of en "snd en" "elemType t" "snd en'"] ens cc
      by (cases en) auto
    then show ?thesis
      using key en en' by simp
  qed
  then have "mapLoop (Val t (DMap es)) (Val t (DMap es')) (MapKeys (Val t (DMap es))) = Inr True"
    by (intro mapLoop_all_true)
  then show ?case
    using map_rule [OF k] d' by simp
qed

lemma copyOf_refl: "copyOf d d"
proof (induction d)
  case (DPtr p)
  then show ?case by (cases p) (auto split: prod.splits)
next
  case (DIface x)
  then show ?case by (cases x) auto
next
  case (DSeq xs)
  then show ?case by (simp add: list_all2_same)
next
  case (DStruct xs)
  then show ?case by (simp add: list_all2_same)
next
  case (DMap es)
  then show ?case by (auto simp: list_all2_same)
qed simp_all


text \<open>
  Claim C6, amended. \<open>Matches v v\<close> is true for every well-typed value \<open>v\<close> that is not
  the nil interface, contains no NaN and no func value, and whose interface-typed slots
  hold only values of comparable dynamic type; and \<open>Matches v w\<close> is true for every
  structural copy \<open>w\<close> of such a \<open>v\<close>, whatever the addresses of the pointers the
  matcher follows.
\<close>

theorem Matches_reflexive_on_clean_values:
  "(wellTyped t d \<and> clean d \<longrightarrow> Matches (Some (t, d)) (Some (t, d)) = Inr True)
   \<and> (wellTyped t d \<and> clean d \<and> copyOf d d' \<longrightarrow>
        Matches (Some (t, d)) (Some (t, d')) = Inr True)"
  using matchesValues_copy [of t d d] matchesValues_copy [of t d d'] copyOf_refl [of d]
  by (simp add: Matches_def)

text \<open>
  The claim as stated fails on a NaN: scalars are compared with \<^verbatim>\<open>==\<close> at line 99,
  and a NaN is not equal to itself.
\<close>

theorem NaN_does_not_match_itself:
  "wellTyped TFloat64 (DFloat NaN)
   \<and> Matches (Some (TFloat64, DFloat NaN)) (Some (TFloat64, DFloat NaN)) = Inr False"
  by code_simp

theorem Matches_reflexive_on_clean_values_witness:
  "wellTyped (TPtr pointT) (DPtr (Some (16, DStruct [DInt 1, DString ''a'', DInt 2])))
   \<and> clean (DPtr (Some (16, DStruct [DInt 1, DString ''a'', DInt 2])))
   \<and> copyOf (DPtr (Some (16, DStruct [DInt 1, DString ''a'', DInt 2])))
        (DPtr (Some (32, DStruct [DInt 1, DString ''a'', DInt 2])))
   \<and> Matches (Some (TPtr pointT, DPtr (Some (16, DStruct [DInt 1, DString ''a'', DInt 2]))))
        (Some (TPtr pointT, DPtr (Some (16, DStruct [DInt 1, DString ''a'', DInt 2])))) = Inr True
   \<and> Matches (Some (TPtr pointT, DPtr (Some (16, DStruct [DInt 1, DString ''a'', DInt 2]))))
        (Some (TPtr pointT, DPtr (Some (32, DStruct [DInt 1, DString ''a'', DInt 2])))) = Inr True"
proof -
  let ?v = "DPtr (Some (16, DStruct [DInt 1, DString ''a'', DInt 2]))"
  let ?w = "DPtr (Some (32, DStruct [DInt 1, DString ''a'', DInt 2]))"
  have h: "wellTyped (TPtr pointT) ?v" "clean ?v" "copyOf ?v ?w"
    by code_simp+
  show ?thesis
    using Matches_reflexive_on_clean_values [of "TPtr pointT" ?v ?w] h by simp
qed


section \<open>Unexported fields\<close>
















end
